theory Spec2Isabelle
  imports Main "HOL-Library.Sublist" "HOL-Library.Word"
begin

section \<open>RooFit code squashing context: data model\<close>

text \<open>
  The development follows \<^verbatim>\<open>roofit/roofitcore/inc/RooFit/Detail/CodeSquashContext.h\<close>.
  The header holds the class layout, the inline members (\<^verbatim>\<open>outputSize\<close>,
  \<^verbatim>\<open>addToCodeBody\<close>, \<^verbatim>\<open>buildCall\<close>, \<^verbatim>\<open>buildArg\<close>, \<^verbatim>\<open>buildArgs\<close>, the node
  overload of \<^verbatim>\<open>addResult\<close>, \<^verbatim>\<open>LoopScope\<close>) and the declarations of the
  out-of-line members.  The out-of-line members are modelled from the specification and
  are marked as such where they are defined.
\<close>

text \<open>
  A \<^verbatim>\<open>TNamed const *\<close> is used for its identity only; a \<^verbatim>\<open>DataKey\<close> wraps the same
  pointer.  Both are addresses.
\<close>

type_synonym key = nat

text \<open>
  \<^verbatim>\<open>RooAbsArg\<close> is an external collaborator.  The header reads the identity handle
  \<^verbatim>\<open>namePtr()\<close> of a node; the specification also has the context ask which
  handles a node depends on, so a node carries the list of them.
\<close>

record node =
  namePtr :: key
  deps :: "key list"

text \<open>Modelled from the spec: whether a node depends on the node with a given handle;
  the header does not show how the context asks.\<close>

definition dependsOn :: "node \<Rightarrow> key \<Rightarrow> bool" where
  "dependsOn n k = (k \<in> set (deps n))"

text \<open>\<^verbatim>\<open>RooTemplateProxy<T>\<close>: a handle whose \<^verbatim>\<open>arg()\<close> is the node it stands for.\<close>

datatype proxy = Proxy node

fun arg :: "proxy \<Rightarrow> node" where
  "arg (Proxy n) = n"

text \<open>
  \<^verbatim>\<open>RooListProxy\<close> / \<^verbatim>\<open>RooAbsCollection\<close>: an ordered list of nodes together with the
  value of its \<^verbatim>\<open>uniqueId()\<close>, which belongs to the collection object and not to its
  contents.
\<close>

record collection =
  uniqueId :: nat
  elems :: "node list"

text \<open>
  The fields of \<^verbatim>\<open>CodeSquashContext\<close>, in the order of the header.  An \<^verbatim>\<open>int\<close> is a
  32-bit word read as a signed number (\<open>sint\<close>, \<open><s\<close>); \<^verbatim>\<open>std::size_t\<close> is a natural
  number.  The list-name cache is kept as an association list, so that the names in it
  can be enumerated; lookups go through \<open>map_of\<close>.
\<close>

record squash_context =
  nodeNames :: "key \<rightharpoonup> string"
  globalScope :: string
  vecObsIndices :: "key \<rightharpoonup> 32 word"
  nodeOutputSizes :: "key \<rightharpoonup> nat"
  code :: string
  loopLevel :: "32 word"
  tmpVarIdx :: "32 word"
  scopePtr :: "32 word"
  tempScope :: string
  listNames :: "(nat \<times> string) list"

text \<open>
  The constructor copies the size table; every other field takes its default member
  initialiser (\<^verbatim>\<open>_loopLevel = 0\<close>, \<^verbatim>\<open>_tmpVarIdx = 0\<close>, \<^verbatim>\<open>_scopePtr = -1\<close>, empty
  strings and maps).
\<close>

definition CodeSquashContext :: "(key \<rightharpoonup> nat) \<Rightarrow> squash_context" where
  "CodeSquashContext outputSizes =
     \<lparr> nodeNames = Map.empty, globalScope = [], vecObsIndices = Map.empty,
       nodeOutputSizes = outputSizes, code = [], loopLevel = 0, tmpVarIdx = 0,
       scopePtr = - 1, tempScope = [], listNames = [] \<rparr>"

text \<open>
  The failures of the context.  \<open>NotFound\<close>, \<open>ScopeLeak\<close> and \<open>NameCollision\<close> are the
  conditions of the specification's error taxonomy.  \<open>Overflow\<close> stands for an \<^verbatim>\<open>int\<close>
  field leaving its range: C++ leaves the behaviour of \<^verbatim>\<open>++\<close> and \<^verbatim>\<open>--\<close> undefined
  there, and the model stops.  No operation of the model catches a failure.
\<close>

datatype error = NotFound | ScopeLeak | NameCollision | Overflow

text \<open>\<^verbatim>\<open>++x\<close> and \<^verbatim>\<open>--x\<close> on an \<^verbatim>\<open>int\<close>, and the conversion of a size to an
  \<^verbatim>\<open>int\<close>.\<close>

definition incrementInt :: "32 word \<Rightarrow> error + 32 word" where
  "incrementInt x = (if sint x = 2147483647 then Inl Overflow else Inr (x + 1))"

definition decrementInt :: "32 word \<Rightarrow> error + 32 word" where
  "decrementInt x = (if sint x = - 2147483648 then Inl Overflow else Inr (x - 1))"

definition intOfSize :: "nat \<Rightarrow> error + 32 word" where
  "intOfSize n = (if int n \<le> 2147483647 then Inr (word_of_nat n) else Inl Overflow)"

section \<open>Members defined in the header\<close>

text \<open>\<^verbatim>\<open>outputSize\<close>: \<^verbatim>\<open>find\<close> in the size table, \<^verbatim>\<open>1\<close> when the key is absent.\<close>

definition outputSize :: "squash_context \<Rightarrow> key \<Rightarrow> nat" where
  "outputSize ctx k = (case nodeOutputSizes ctx k of Some n \<Rightarrow> n | None \<Rightarrow> 1)"

text \<open>\<^verbatim>\<open>addToCodeBody\<close>: \<^verbatim>\<open>_code += in\<close>.\<close>

definition addToCodeBody :: "squash_context \<Rightarrow> string \<Rightarrow> squash_context" where
  "addToCodeBody ctx s = ctx\<lparr>code := code ctx @ s\<rparr>"

subsection \<open>Decimal text of integers\<close>

text \<open>\<^verbatim>\<open>std::to_string\<close> on an integer: its decimal digits, with a leading minus sign
  for a negative value.\<close>

definition digit_char :: "nat \<Rightarrow> char" where
  "digit_char d = char_of (48 + d)"

fun nat_to_string :: "nat \<Rightarrow> string" where
  "nat_to_string n =
     (if n < 10 then [digit_char n] else nat_to_string (n div 10) @ [digit_char (n mod 10)])"

declare nat_to_string.simps [simp del]

definition to_string :: "int \<Rightarrow> string" where
  "to_string i = (if i < 0 then CHR ''-'' # nat_to_string (nat (- i)) else nat_to_string (nat i))"

subsection \<open>The arguments of a call\<close>

text \<open>The overloads of \<^verbatim>\<open>buildArg\<close> as one tagged argument type: \<^verbatim>\<open>double\<close>,
  \<^verbatim>\<open>int\<close>, \<^verbatim>\<open>unsigned int\<close>, \<^verbatim>\<open>long unsigned int\<close>, \<^verbatim>\<open>std::string\<close>,
  \<^verbatim>\<open>RooAbsCollection\<close>, \<^verbatim>\<open>RooAbsArg\<close> and \<^verbatim>\<open>RooTemplateProxy<T>\<close>.  The
  integers are machine words, read as signed (\<^verbatim>\<open>int\<close>) or unsigned.  The type \<open>'d\<close>
  stands for \<^verbatim>\<open>double\<close>.\<close>

datatype 'd argument =
    ArgDouble 'd
  | ArgInt "32 word"
  | ArgUInt "32 word"
  | ArgULong "64 word"
  | ArgString string
  | ArgCollection collection
  | ArgNode node
  | ArgProxy proxy

subsection \<open>What the specification and the language leave open\<close>

text \<open>
  Neither the header nor the specification fixes the text of the emitted statements,
  the base names of the generated variables, what counts as a bare identifier or
  literal, the test that a declared variable name is still unused (it is given the
  result registry and the list-name cache to look at), or the rendering of a
  \<^verbatim>\<open>double\<close> (\<^verbatim>\<open>RooNumber::toString\<close>, not part of this header).  C++ does not fix
  which operand of \<^verbatim>\<open>buildArg(arg) + ", " + buildArgs(args...)\<close> is evaluated first;
  \<open>leftFirst\<close> says, for a pack of arguments, whether the compiled code converts the
  first argument before the rest.  All of these are parameters of the model: every
  theorem below holds for each choice of them.  The loop header is built from the name
  of the loop variable, the number of iterations and the loop variables it binds; the
  indexed access from the column index and the name of the loop variable.
\<close>

record 'd conventions =
  toString :: "'d \<Rightarrow> string"
  leftFirst :: "'d argument list \<Rightarrow> bool"
  isBare :: "string \<Rightarrow> bool"
  isUnique :: "(key \<rightharpoonup> string) \<Rightarrow> (nat \<times> string) list \<Rightarrow> string \<Rightarrow> bool"
  tmpBase :: string
  loopBase :: string
  assignStmt :: "string \<Rightarrow> string \<Rightarrow> string"
  arrayStmt :: "string \<Rightarrow> string list \<Rightarrow> string"
  indexExpr :: "int \<Rightarrow> string \<Rightarrow> string"
  loopHeader :: "string \<Rightarrow> nat \<Rightarrow> key list \<Rightarrow> string"
  loopClose :: string
  returnStmt :: "string \<Rightarrow> string"

section \<open>Out-of-line members, from the specification\<close>

text \<open>
  Modelled from the spec: the body of \<^verbatim>\<open>addResult(TNamed const *, std::string const &)\<close>
  is not in the header.  \<open>recordResult\<close> stores the expression as the node's result;
  recording again for the same handle overwrites.
\<close>

definition addResultKey :: "squash_context \<Rightarrow> key \<Rightarrow> string \<Rightarrow> squash_context" where
  "addResultKey ctx k v = ctx\<lparr>nodeNames := (nodeNames ctx)(k \<mapsto> v)\<rparr>"

text \<open>
  Modelled from the spec: the name of the variable that a generated loop iterates with.
  The specification gives no scheme for it; as for temporary names, a counter-suffixed
  base name is used, numbered by the nesting level at which the loop opens.
\<close>

definition loopVarName :: "'d conventions \<Rightarrow> int \<Rightarrow> string" where
  "loopVarName S level = loopBase S @ to_string level"

text \<open>
  Modelled from the spec: the body of \<^verbatim>\<open>getResult(RooAbsArg const &)\<close> is not in the
  header.  A node registered by \<open>addVecObs\<close> is not read from the registry: its lookup
  resolves to an indexed access into the input buffer at its column, using the loop
  index variable in scope, which is that of the innermost open loop; outside every loop
  there is no such variable and the lookup fails.  For every other node \<open>lookupResult\<close>
  returns the previously recorded expression and fails with \<open>NotFound\<close> if the node was
  never visited.
\<close>

definition getResult :: "'d conventions \<Rightarrow> squash_context \<Rightarrow> node \<Rightarrow> error + string" where
  "getResult S ctx n =
     (case vecObsIndices ctx (namePtr n) of
        Some col \<Rightarrow>
          (if 0 <s loopLevel ctx
           then Inr (indexExpr S (sint col) (loopVarName S (sint (loopLevel ctx) - 1)))
           else Inl NotFound)
      | None \<Rightarrow> (case nodeNames ctx (namePtr n) of Some v \<Rightarrow> Inr v | None \<Rightarrow> Inl NotFound))"

text \<open>The proxy overload is in the header: \<^verbatim>\<open>getResult(key.arg())\<close>.\<close>

definition getResultProxy :: "'d conventions \<Rightarrow> squash_context \<Rightarrow> proxy \<Rightarrow> error + string" where
  "getResultProxy S ctx p = getResult S ctx (arg p)"

text \<open>
  Modelled from the spec: the body of \<^verbatim>\<open>getTmpVarName\<close> is not in the header.
  \<open>newTempName\<close> returns a counter-suffixed base name and advances the counter
  \<^verbatim>\<open>_tmpVarIdx\<close>, an \<^verbatim>\<open>int\<close>.
\<close>

definition getTmpVarName :: "'d conventions \<Rightarrow> squash_context \<Rightarrow> error + string \<times> squash_context" where
  "getTmpVarName S ctx =
     (case incrementInt (tmpVarIdx ctx) of
        Inl e \<Rightarrow> Inl e
      | Inr i \<Rightarrow> Inr (tmpBase S @ to_string (sint (tmpVarIdx ctx)), ctx\<lparr>tmpVarIdx := i\<rparr>))"

text \<open>
  Modelled from the spec: the part of \<^verbatim>\<open>saveListAsArray\<close> (body not in the header)
  that collects the recorded results of the members of a collection, in the collection's
  order; the first missing one is fatal.
\<close>

fun getResults :: "'d conventions \<Rightarrow> squash_context \<Rightarrow> node list \<Rightarrow> error + string list" where
  "getResults S ctx [] = Inr []"
| "getResults S ctx (n # ns) =
     (case getResult S ctx n of
        Inl e \<Rightarrow> Inl e
      | Inr v \<Rightarrow> (case getResults S ctx ns of Inl e \<Rightarrow> Inl e | Inr vs \<Rightarrow> Inr (v # vs)))"

text \<open>
  Modelled from the spec: the body of \<^verbatim>\<open>saveListAsArray\<close> is not in the header.
  On a cache hit for the collection's identity the cached name is returned.  Otherwise a
  name is taken: the declared one when it is not empty, else a new temporary name.  A
  name that collides is rejected with \<open>NameCollision\<close> (of the two policies the
  specification allows, the model rejects): a declared name that fails the uniqueness
  test, and any name that another array already bears.  Then the array initialiser over
  the members' recorded results is emitted (to the code body), the identity is cached
  under the name, and the name is returned.
\<close>

definition saveListAsArray ::
  "'d conventions \<Rightarrow> squash_context \<Rightarrow> collection \<Rightarrow> string \<Rightarrow> error + string \<times> squash_context" where
  "saveListAsArray S ctx c name =
     (case map_of (listNames ctx) (uniqueId c) of
        Some cached \<Rightarrow> Inr (cached, ctx)
      | None \<Rightarrow>
          (case (if name = [] then getTmpVarName S ctx else Inr (name, ctx)) of
             Inl e \<Rightarrow> Inl e
           | Inr (savedName, ctx1) \<Rightarrow>
               if savedName \<in> set (map snd (listNames ctx1)) \<or>
                  (name \<noteq> [] \<and> \<not> isUnique S (nodeNames ctx1) (listNames ctx1) name)
               then Inl NameCollision
               else (case getResults S ctx1 (elems c) of
                       Inl e \<Rightarrow> Inl e
                     | Inr vs \<Rightarrow>
                         Inr (savedName,
                              (addToCodeBody ctx1 (arrayStmt S savedName vs))
                                \<lparr>listNames := (uniqueId c, savedName) # listNames ctx1\<rparr>))))"

section \<open>Call-argument serialisation (header)\<close>

fun buildArg :: "'d conventions \<Rightarrow> squash_context \<Rightarrow> 'd argument \<Rightarrow> error + string \<times> squash_context" where
  "buildArg S ctx (ArgDouble x) = Inr (toString S x, ctx)"
| "buildArg S ctx (ArgInt x) = Inr (to_string (sint x), ctx)"
| "buildArg S ctx (ArgUInt x) = Inr (to_string (uint x), ctx)"
| "buildArg S ctx (ArgULong x) = Inr (to_string (uint x), ctx)"
| "buildArg S ctx (ArgString x) = Inr (x, ctx)"
| "buildArg S ctx (ArgCollection x) = saveListAsArray S ctx x []"
| "buildArg S ctx (ArgNode a) =
     (case getResult S ctx a of Inl e \<Rightarrow> Inl e | Inr v \<Rightarrow> Inr (v, ctx))"
| "buildArg S ctx (ArgProxy a) =
     (case getResultProxy S ctx a of Inl e \<Rightarrow> Inl e | Inr v \<Rightarrow> Inr (v, ctx))"

text \<open>
  \<^verbatim>\<open>buildArgs\<close>: the empty pack gives the empty string, a single argument its own
  text, and a longer pack \<^verbatim>\<open>buildArg(arg) + ", " + buildArgs(args...)\<close>.  The two calls
  are operands of \<^verbatim>\<open>+\<close>, so the language does not say which runs first; the model
  takes the order from \<open>leftFirst\<close> and covers both.  The text is put together in the
  order of the arguments either way.
\<close>

fun buildArgs :: "'d conventions \<Rightarrow> squash_context \<Rightarrow> 'd argument list \<Rightarrow> error + string \<times> squash_context" where
  "buildArgs S ctx [] = Inr ([], ctx)"
| "buildArgs S ctx [a] = buildArg S ctx a"
| "buildArgs S ctx (a # b # bs) =
     (if leftFirst S (a # b # bs)
      then (case buildArg S ctx a of
              Inl e \<Rightarrow> Inl e
            | Inr (s, ctx1) \<Rightarrow>
                (case buildArgs S ctx1 (b # bs) of
                   Inl e \<Rightarrow> Inl e
                 | Inr (t, ctx2) \<Rightarrow> Inr (s @ '', '' @ t, ctx2)))
      else (case buildArgs S ctx (b # bs) of
              Inl e \<Rightarrow> Inl e
            | Inr (t, ctx1) \<Rightarrow>
                (case buildArg S ctx1 a of
                   Inl e \<Rightarrow> Inl e
                 | Inr (s, ctx2) \<Rightarrow> Inr (s @ '', '' @ t, ctx2))))"

text \<open>\<^verbatim>\<open>buildCall\<close>: \<^verbatim>\<open>ss << funcname << "(" << buildArgs(args...) << ")"\<close>.\<close>

definition buildCall ::
  "'d conventions \<Rightarrow> squash_context \<Rightarrow> string \<Rightarrow> 'd argument list \<Rightarrow> error + string \<times> squash_context" where
  "buildCall S ctx funcname args =
     (case buildArgs S ctx args of
        Inl e \<Rightarrow> Inl e
      | Inr (s, ctx1) \<Rightarrow> Inr (funcname @ ''('' @ s @ '')'', ctx1))"

section \<open>Temporaries, loops and assembly, from the specification\<close>

text \<open>
  Modelled from the spec: the body of \<^verbatim>\<open>saveAsTemp\<close> is not in the header.  An
  expression that is already a bare identifier or literal is not materialised: it is
  returned as it is and nothing is emitted (the policy of \<open>recordResult\<close>, which the
  header's \<^verbatim>\<open>addResult\<close> reaches only through this function).  Any other expression is
  assigned to a variable: the declared name if it is non-empty and unique, else an
  allocated temporary name.  The assignment is emitted to the temp-scope buffer when a
  loop is open and the node does not depend on any active loop variable, and to the code
  body otherwise; the variable name is returned.  The context of the header has no field
  for the active loop variables (they are owned by the live scope handles), so they are
  an argument of the model.
\<close>

definition saveAsTemp ::
  "'d conventions \<Rightarrow> key list \<Rightarrow> squash_context \<Rightarrow> node \<Rightarrow> string \<Rightarrow> string
     \<Rightarrow> error + string \<times> squash_context" where
  "saveAsTemp S active ctx n valueToSave name =
     (if isBare S valueToSave then Inr (valueToSave, ctx)
      else (case (if name \<noteq> [] \<and> isUnique S (nodeNames ctx) (listNames ctx) name
                  then Inr (name, ctx) else getTmpVarName S ctx) of
              Inl e \<Rightarrow> Inl e
            | Inr (savedName, ctx1) \<Rightarrow>
                if 0 <s loopLevel ctx1 \<and> list_all (\<lambda>k. \<not> dependsOn n k) active
                then Inr (savedName,
                          ctx1\<lparr>tempScope := tempScope ctx1 @ assignStmt S savedName valueToSave\<rparr>)
                else Inr (savedName, addToCodeBody ctx1 (assignStmt S savedName valueToSave))))"

text \<open>The node overload of \<^verbatim>\<open>addResult\<close> is in the header:
  \<^verbatim>\<open>addResult(key->namePtr(), saveAsTemp(key, value))\<close>.\<close>

definition addResult ::
  "'d conventions \<Rightarrow> key list \<Rightarrow> squash_context \<Rightarrow> node \<Rightarrow> string \<Rightarrow> error + squash_context" where
  "addResult S active ctx n v =
     (case saveAsTemp S active ctx n v [] of
        Inl e \<Rightarrow> Inl e
      | Inr (savedName, ctx1) \<Rightarrow> Inr (addResultKey ctx1 (namePtr n) savedName))"

text \<open>Modelled from the spec: the body of \<^verbatim>\<open>addToGlobalScope\<close> is not in the header.
  The global scope buffer is append-only.\<close>

definition addToGlobalScope :: "squash_context \<Rightarrow> string \<Rightarrow> squash_context" where
  "addToGlobalScope ctx s = ctx\<lparr>globalScope := globalScope ctx @ s\<rparr>"

text \<open>Modelled from the spec: the body of \<^verbatim>\<open>addVecObs\<close> is not in the header.  It
  registers the node as a raw input column at the given index.  (The header takes the
  node's name; the handle it resolves to is used here.)\<close>

definition addVecObs :: "squash_context \<Rightarrow> key \<Rightarrow> 32 word \<Rightarrow> squash_context" where
  "addVecObs ctx k idx = ctx\<lparr>vecObsIndices := (vecObsIndices ctx)(k \<mapsto> idx)\<rparr>"

text \<open>\<^verbatim>\<open>LoopScope\<close> (header): the handle owns the loop variables; its destructor
  calls \<^verbatim>\<open>endLoop\<close>.\<close>

record LoopScope =
  vars :: "key list"

text \<open>
  Modelled from the spec: the body of \<^verbatim>\<open>beginLoop\<close> is not in the header.  The loop
  variables are the distinct vector observables the node depends on.  If the loop level
  was 0, the current length of the code body becomes the splice pointer.  The level is
  incremented and the loop header, iterating up to the node's output size, is emitted.
  The scope handle that owns the loop variables is returned.
\<close>

definition beginLoop ::
  "'d conventions \<Rightarrow> squash_context \<Rightarrow> node \<Rightarrow> error + LoopScope \<times> squash_context" where
  "beginLoop S ctx n =
     (let vs = filter (\<lambda>k. vecObsIndices ctx k \<noteq> None) (remdups (deps n));
          header = loopHeader S (loopVarName S (sint (loopLevel ctx))) (outputSize ctx (namePtr n)) vs
      in case (if loopLevel ctx = 0 then intOfSize (length (code ctx)) else Inr (scopePtr ctx)) of
           Inl e \<Rightarrow> Inl e
         | Inr p \<Rightarrow>
             (case incrementInt (loopLevel ctx) of
                Inl e \<Rightarrow> Inl e
              | Inr l \<Rightarrow>
                  Inr (\<lparr>vars = vs\<rparr>, addToCodeBody (ctx\<lparr>scopePtr := p, loopLevel := l\<rparr>) header)))"

text \<open>
  Modelled from the spec: the body of \<^verbatim>\<open>endLoop\<close> is not in the header.  The
  loop-closing statement is emitted and the level decremented.  If the level is back at
  0, the temp-scope buffer is spliced into the code body at the splice pointer, the
  buffer is cleared and the pointer invalidated.  A splice pointer that is not an offset
  into the code body at that moment is a contract violation.
\<close>

definition endLoop ::
  "'d conventions \<Rightarrow> squash_context \<Rightarrow> LoopScope \<Rightarrow> error + squash_context" where
  "endLoop S ctx scope =
     (let ctx1 = addToCodeBody ctx (loopClose S)
      in case decrementInt (loopLevel ctx1) of
           Inl e \<Rightarrow> Inl e
         | Inr l \<Rightarrow>
             if l = 0
             then (if 0 \<le>s scopePtr ctx1 \<and> nat (sint (scopePtr ctx1)) \<le> length (code ctx1)
                   then Inr (ctx1\<lparr>code := take (nat (sint (scopePtr ctx1))) (code ctx1)
                                          @ tempScope ctx1
                                          @ drop (nat (sint (scopePtr ctx1))) (code ctx1),
                                   loopLevel := l, tempScope := [], scopePtr := - 1\<rparr>)
                   else Inl ScopeLeak)
             else Inr (ctx1\<lparr>loopLevel := l\<rparr>))"

text \<open>
  Modelled from the spec: the body of \<^verbatim>\<open>assembleCode\<close> is not in the header.  It
  fails if a loop scope is still open; otherwise it concatenates the global scope
  buffer, the code body and the return statement built from the return expression.
\<close>

definition assembleCode :: "'d conventions \<Rightarrow> squash_context \<Rightarrow> string \<Rightarrow> error + string" where
  "assembleCode S ctx returnExpr =
     (if 0 <s loopLevel ctx then Inl ScopeLeak
      else Inr (globalScope ctx @ code ctx @ returnStmt S returnExpr))"

section \<open>Compilation runs\<close>

text \<open>
  A compilation run is the sequence of calls the caller makes on one context.  The
  caller holds the scope handles.  Each handle is known by the serial number of the
  \<^verbatim>\<open>beginLoop\<close> call that made it, which stands for the identity of the object;
  \<open>made\<close> lists the handles in the order of their making.  \<open>ReleaseScope i\<close> is the
  destruction of handle \<open>i\<close> or of a copy of it: the class is copyable and the
  \<^verbatim>\<open>unique_ptr\<close> can be reset at any time, so a caller may try to release in any
  order and more than once, and a run may contain every such call.  \<open>live\<close> holds the
  handles not yet released, the most recent first; their loop variables are the active
  ones.
\<close>

datatype 'd call =
    AddResult node string
  | AddResultKey key string
  | GetResult node
  | AddToGlobalScope string
  | AddVecObs key "32 word"
  | AddToCodeBody string
  | BuildCall string "'d argument list"
  | BeginLoop node
  | ReleaseScope nat
  | GetTmpVarName
  | SaveAsTemp node string string
  | SaveListAsArray collection string

datatype outcome = Done | Text string | Opened nat | Released nat

record run_state =
  cstate :: squash_context
  made :: "LoopScope list"
  live :: "(nat \<times> LoopScope) list"

definition initial :: "(key \<rightharpoonup> nat) \<Rightarrow> run_state" where
  "initial outputSizes = \<lparr>cstate = CodeSquashContext outputSizes, made = [], live = []\<rparr>"

definition activeVars :: "run_state \<Rightarrow> key list" where
  "activeVars st = concat (map (\<lambda>(i, sc). vars sc) (live st))"

text \<open>
  Modelled from the spec: the destruction of a scope handle.  The destructor in the
  header calls \<^verbatim>\<open>endLoop\<close>, whose body is not there.  The specification makes the
  destruction of a loop scope out of nested order a \<open>ScopeLeak\<close>, and the release of a
  scope that is not open a contract violation: only the innermost live handle can be
  released; the release of any other handle, of a handle already released or of one
  never made fails.
\<close>

definition releaseScope :: "'d conventions \<Rightarrow> run_state \<Rightarrow> nat \<Rightarrow> error + run_state" where
  "releaseScope S st i =
     (case live st of
        [] \<Rightarrow> Inl ScopeLeak
      | (j, sc) # rest \<Rightarrow>
          if i = j
          then (case endLoop S (cstate st) sc of
                  Inl e \<Rightarrow> Inl e
                | Inr c \<Rightarrow> Inr (st\<lparr>cstate := c, live := rest\<rparr>))
          else Inl ScopeLeak)"

text \<open>One call.\<close>

fun step :: "'d conventions \<Rightarrow> 'd call \<Rightarrow> run_state \<Rightarrow> error + outcome \<times> run_state" where
  "step S (AddResult n v) st =
     (case addResult S (activeVars st) (cstate st) n v of
        Inl e \<Rightarrow> Inl e
      | Inr c \<Rightarrow> Inr (Done, st\<lparr>cstate := c\<rparr>))"
| "step S (AddResultKey k v) st = Inr (Done, st\<lparr>cstate := addResultKey (cstate st) k v\<rparr>)"
| "step S (GetResult n) st =
     (case getResult S (cstate st) n of Inl e \<Rightarrow> Inl e | Inr v \<Rightarrow> Inr (Text v, st))"
| "step S (AddToGlobalScope s) st = Inr (Done, st\<lparr>cstate := addToGlobalScope (cstate st) s\<rparr>)"
| "step S (AddVecObs k i) st = Inr (Done, st\<lparr>cstate := addVecObs (cstate st) k i\<rparr>)"
| "step S (AddToCodeBody s) st = Inr (Done, st\<lparr>cstate := addToCodeBody (cstate st) s\<rparr>)"
| "step S (BuildCall f args) st =
     (case buildCall S (cstate st) f args of
        Inl e \<Rightarrow> Inl e
      | Inr (s, c) \<Rightarrow> Inr (Text s, st\<lparr>cstate := c\<rparr>))"
| "step S (BeginLoop n) st =
     (case beginLoop S (cstate st) n of
        Inl e \<Rightarrow> Inl e
      | Inr (sc, c) \<Rightarrow>
          Inr (Opened (length (made st)),
               st\<lparr>cstate := c, made := made st @ [sc],
                  live := (length (made st), sc) # live st\<rparr>))"
| "step S (ReleaseScope i) st =
     (case releaseScope S st i of Inl e \<Rightarrow> Inl e | Inr st1 \<Rightarrow> Inr (Released i, st1))"
| "step S GetTmpVarName st =
     (case getTmpVarName S (cstate st) of
        Inl e \<Rightarrow> Inl e
      | Inr (s, c) \<Rightarrow> Inr (Text s, st\<lparr>cstate := c\<rparr>))"
| "step S (SaveAsTemp n v name) st =
     (case saveAsTemp S (activeVars st) (cstate st) n v name of
        Inl e \<Rightarrow> Inl e
      | Inr (s, c) \<Rightarrow> Inr (Text s, st\<lparr>cstate := c\<rparr>))"
| "step S (SaveListAsArray c name) st =
     (case saveListAsArray S (cstate st) c name of
        Inl e \<Rightarrow> Inl e
      | Inr (s, c') \<Rightarrow> Inr (Text s, st\<lparr>cstate := c'\<rparr>))"

text \<open>A run stops at the first failure; otherwise it yields what each call returned
  and the last state.\<close>

fun run :: "'d conventions \<Rightarrow> 'd call list \<Rightarrow> run_state \<Rightarrow> error + outcome list \<times> run_state" where
  "run S [] st = Inr ([], st)"
| "run S (c # cs) st =
     (case step S c st of
        Inl e \<Rightarrow> Inl e
      | Inr (out, st1) \<Rightarrow>
          (case run S cs st1 of Inl e \<Rightarrow> Inl e | Inr (outs, st2) \<Rightarrow> Inr (out # outs, st2)))"

text \<open>An instance of the conventions, for evaluating the model on concrete runs.  It
  converts the last argument of a call first.\<close>

definition plain :: "int conventions" where
  "plain =
     \<lparr> toString = to_string,
       leftFirst = (\<lambda>args. False),
       isBare = list_all (\<lambda>ch. ch \<in> set ''abcdefghijklmnopqrstuvwxyzABCDEFGHIJKLMNOPQRSTUVWXYZ0123456789_.''),
       isUnique = (\<lambda>results lists name. True),
       tmpBase = ''tmpVar'',
       loopBase = ''loopIdx'',
       assignStmt = (\<lambda>name e. ''double '' @ name @ '' = '' @ e @ ''; ''),
       arrayStmt = (\<lambda>name es. ''double '' @ name @ ''[] = {'' @ concat (map (\<lambda>e. e @ '','') es) @ ''}; ''),
       indexExpr = (\<lambda>col idx. ''obs['' @ to_string col @ '' + '' @ idx @ '']''),
       loopHeader = (\<lambda>idx n vs. ''for('' @ idx @ '' < '' @ to_string (int n) @ '') { ''),
       loopClose = ''} '',
       returnStmt = (\<lambda>e. ''return '' @ e @ '';'') \<rparr>"

subsection \<open>Predicates used in the proofs\<close>

text \<open>What every operation other than opening and closing a loop guarantees: the two
  buffers only grow at their end, the temp-scope buffer only while a loop is open, the
  loop level and the splice pointer stay, the temporary counter does not go down, the
  array cache keeps its entries.\<close>

definition grows :: "squash_context \<Rightarrow> squash_context \<Rightarrow> bool" where
  "grows c c' =
     (prefix (code c) (code c') \<and> prefix (tempScope c) (tempScope c') \<and>
      (if 0 <s loopLevel c then True else tempScope c' = tempScope c) \<and>
      loopLevel c' = loopLevel c \<and> scopePtr c' = scopePtr c \<and>
      sint (tmpVarIdx c) \<le> sint (tmpVarIdx c') \<and>
      map_of (listNames c) \<subseteq>\<^sub>m map_of (listNames c') \<and>
      nodeOutputSizes c' = nodeOutputSizes c)"

text \<open>The invariant of every state a run reaches from a new context: while a loop is
  open the splice pointer is a position of the code body; otherwise the temp-scope buffer
  is empty and the splice pointer has its initial value.\<close>

definition invariant :: "squash_context \<Rightarrow> bool" where
  "invariant c =
     (if 0 <s loopLevel c
      then 0 \<le>s scopePtr c \<and> nat (sint (scopePtr c)) \<le> length (code c)
      else tempScope c = [] \<and> scopePtr c = - 1)"

fun managesLoop :: "'d call \<Rightarrow> bool" where
  "managesLoop (BeginLoop n) = True"
| "managesLoop (ReleaseScope i) = True"
| "managesLoop _ = False"

text \<open>The specification's reading of a call: the converted arguments, joined with one
  separator.\<close>

fun joinWith :: "string \<Rightarrow> string list \<Rightarrow> string" where
  "joinWith sep [] = []"
| "joinWith sep [t] = t"
| "joinWith sep (t # u # us) = t @ sep @ joinWith sep (u # us)"

text \<open>\<open>converted S c c' a t\<close>: \<open>t\<close> is the text of argument \<open>a\<close> by its kind, for a call
  that starts in context \<open>c\<close> and ends in \<open>c'\<close>: a number its textual form, a string
  itself, a node or proxy the result expression looked up in \<open>c\<close>, a collection the
  array name the cache of \<open>c'\<close> holds for its identity.\<close>

fun converted :: "'d conventions \<Rightarrow> squash_context \<Rightarrow> squash_context \<Rightarrow> 'd argument \<Rightarrow> string \<Rightarrow> bool" where
  "converted S c c' (ArgDouble x) t = (t = toString S x)"
| "converted S c c' (ArgInt x) t = (t = to_string (sint x))"
| "converted S c c' (ArgUInt x) t = (t = to_string (uint x))"
| "converted S c c' (ArgULong x) t = (t = to_string (uint x))"
| "converted S c c' (ArgString x) t = (t = x)"
| "converted S c c' (ArgCollection k) t = (map_of (listNames c') (uniqueId k) = Some t)"
| "converted S c c' (ArgNode n) t = (getResult S c n = Inr t)"
| "converted S c c' (ArgProxy p) t = (getResult S c (arg p) = Inr t)"

fun isCollection :: "'d argument \<Rightarrow> bool" where
  "isCollection (ArgCollection k) = True"
| "isCollection _ = False"

text \<open>What a call may change in the context: arrays materialised for collections (code
  body, cache, temporary counter); every other field stays.\<close>

definition onlyArrays :: "squash_context \<Rightarrow> squash_context \<Rightarrow> bool" where
  "onlyArrays c c' =
     (nodeNames c' = nodeNames c \<and> globalScope c' = globalScope c \<and>
      vecObsIndices c' = vecObsIndices c \<and> nodeOutputSizes c' = nodeOutputSizes c \<and>
      loopLevel c' = loopLevel c \<and> scopePtr c' = scopePtr c \<and>
      tempScope c' = tempScope c \<and> prefix (code c) (code c') \<and>
      map_of (listNames c) \<subseteq>\<^sub>m map_of (listNames c'))"

text \<open>Whether a call records a result for the handle \<open>k\<close>.\<close>

fun records :: "key \<Rightarrow> 'd call \<Rightarrow> bool" where
  "records k (AddResult n v) = (namePtr n = k)"
| "records k (AddResultKey k' v) = (k' = k)"
| "records k _ = False"

text \<open>What the calls of a run returned, without the final state.\<close>

definition outcomes :: "error + outcome list \<times> run_state \<Rightarrow> error + outcome list" where
  "outcomes r = map_sum id fst r"







section \<open>Decimal text is injective\<close>








lemma to_string_small:
  "to_string 0 = ''0''" "to_string 1 = ''1''" "to_string 2 = ''2''" "to_string 3 = ''3''"
  by code_simp+

section \<open>The \<^verbatim>\<open>int\<close> counters\<close>

lemma sint_range32: "- 2147483648 \<le> sint (x :: 32 word) \<and> sint x \<le> 2147483647"
  using sint_range_size [of x] by (simp add: word_size)

lemma sint_inc: "sint x \<noteq> 2147483647 \<Longrightarrow> sint (x + 1 :: 32 word) = sint x + 1"
  using sint_range32 [of x]
  by (simp add: sint_word_ariths signed_take_bit_int_eq_self)

lemma sint_dec: "sint x \<noteq> - 2147483648 \<Longrightarrow> sint (x - 1 :: 32 word) = sint x - 1"
  using sint_range32 [of x]
  by (simp add: sint_word_ariths signed_take_bit_int_eq_self)

lemma sint_of_nat32: "int n \<le> 2147483647 \<Longrightarrow> sint (word_of_nat n :: 32 word) = int n"
  by (simp add: sint_uint unsigned_of_nat take_bit_nat_eq_self signed_take_bit_int_eq_self
        take_bit_int_eq_self)

lemma sint_inj32: "sint (x :: 32 word) = sint y \<Longrightarrow> x = y"
  by (rule signed_word_eqI) simp

lemma incrementInt_Inr: "incrementInt x = Inr y \<Longrightarrow> sint y = sint x + 1"
  by (auto simp: incrementInt_def sint_inc split: if_splits)

lemma decrementInt_Inr: "decrementInt x = Inr y \<Longrightarrow> sint y = sint x - 1"
  by (auto simp: decrementInt_def sint_dec split: if_splits)

lemma intOfSize_Inr: "intOfSize n = Inr y \<Longrightarrow> sint y = int n"
  by (auto simp: intOfSize_def sint_of_nat32 split: if_splits)

lemma sless0: "(0 <s (x :: 32 word)) = (0 < sint x)"
  by (simp add: word_sless_alt)

lemma sle0: "(0 \<le>s (x :: 32 word)) = (0 \<le> sint x)"
  by (simp add: word_sle_eq)

lemma sint_zero_iff: "x = 0 \<longleftrightarrow> sint (x :: 32 word) = 0"
  using sint_inj32 [of x 0] by auto

section \<open>Calls outside loop management only append\<close>

lemma grows_refl: "grows c c"
  by (simp add: grows_def)

lemma grows_trans: "grows a b \<Longrightarrow> grows b c \<Longrightarrow> grows a c"
  unfolding grows_def
  by (auto elim: prefix_order.trans map_le_trans split: if_splits)

lemma getTmpVarName_grows: "getTmpVarName S c = Inr (s, c') \<Longrightarrow> grows c c'"
  by (auto simp: getTmpVarName_def grows_def split: sum.splits dest!: incrementInt_Inr)

lemma saveAsTemp_grows: "saveAsTemp S act c n v name = Inr (s, c') \<Longrightarrow> grows c c'"
  by (auto simp: saveAsTemp_def getTmpVarName_def addToCodeBody_def grows_def
           split: if_splits prod.splits sum.splits dest!: incrementInt_Inr)

lemma addResultKey_grows: "grows c (addResultKey c k v)"
  by (simp add: addResultKey_def grows_def)

lemma addResult_grows: "addResult S act c n v = Inr c' \<Longrightarrow> grows c c'"
  unfolding addResult_def
  by (auto split: prod.splits sum.splits intro: grows_trans saveAsTemp_grows addResultKey_grows)

lemma saveListAsArray_grows: "saveListAsArray S c coll name = Inr (s, c') \<Longrightarrow> grows c c'"
  by (auto simp: saveListAsArray_def getTmpVarName_def addToCodeBody_def grows_def map_le_def
           split: option.splits if_splits prod.splits sum.splits dest!: incrementInt_Inr)

lemma buildArg_grows: "buildArg S c a = Inr (s, c') \<Longrightarrow> grows c c'"
  by (cases a) (auto simp: grows_refl saveListAsArray_grows split: sum.splits)

lemma buildArgs_grows: "buildArgs S c args = Inr (s, c') \<Longrightarrow> grows c c'"
proof (induction S c args arbitrary: s c' rule: buildArgs.induct)
  case (1 S ctx)
  then show ?case by (simp add: grows_refl)
next
  case (2 S ctx a)
  then show ?case by (simp add: buildArg_grows)
next
  case (3 S ctx a b bs)
  show ?case
  proof (cases "leftFirst S (a # b # bs)")
    case True
    with "3.prems" obtain s1 c1 t where
      a: "buildArg S ctx a = Inr (s1, c1)" and r: "buildArgs S c1 (b # bs) = Inr (t, c')"
      by (auto split: sum.splits prod.splits)
    from buildArg_grows [OF a] "3.IH"(1) [OF True a refl r] show ?thesis
      by (rule grows_trans)
  next
    case False
    with "3.prems" obtain s1 c1 t where
      r: "buildArgs S ctx (b # bs) = Inr (t, c1)" and a: "buildArg S c1 a = Inr (s1, c')"
      by (auto split: sum.splits prod.splits)
    from "3.IH"(2) [OF False r] buildArg_grows [OF a] show ?thesis
      by (rule grows_trans)
  qed
qed

lemma buildCall_grows: "buildCall S c f args = Inr (s, c') \<Longrightarrow> grows c c'"
  by (auto simp: buildCall_def split: sum.splits prod.splits dest: buildArgs_grows)

lemma step_grows:
  "step S c st = Inr (out, st') \<Longrightarrow> \<not> managesLoop c \<Longrightarrow>
     grows (cstate st) (cstate st') \<and> live st' = live st \<and> made st' = made st"
proof (cases c)
  case (AddResult n v)
  assume "step S c st = Inr (out, st')"
  with AddResult show ?thesis by (auto split: sum.splits dest: addResult_grows)
next
  case (BuildCall f args)
  assume "step S c st = Inr (out, st')"
  with BuildCall show ?thesis
    by (auto split: sum.splits prod.splits dest: buildCall_grows)
next
  case (SaveAsTemp n v name)
  assume "step S c st = Inr (out, st')"
  with SaveAsTemp show ?thesis
    by (auto split: sum.splits prod.splits dest: saveAsTemp_grows)
next
  case (SaveListAsArray coll name)
  assume "step S c st = Inr (out, st')"
  with SaveListAsArray show ?thesis
    by (auto split: sum.splits prod.splits dest: saveListAsArray_grows)
next
  case GetTmpVarName
  assume "step S c st = Inr (out, st')"
  with GetTmpVarName show ?thesis
    by (auto split: sum.splits prod.splits dest: getTmpVarName_grows)
qed (auto simp: addResultKey_def grows_def addToGlobalScope_def addVecObs_def
           addToCodeBody_def split: sum.splits)

section \<open>The run invariant and final assembly\<close>

lemma invariant_initial: "invariant (cstate (initial sizes))"
  by (simp add: invariant_def initial_def CodeSquashContext_def)

lemma grows_invariant: "invariant c \<Longrightarrow> grows c c' \<Longrightarrow> invariant c'"
  unfolding invariant_def grows_def
  by (auto dest!: prefix_length_le split: if_splits)

lemma beginLoop_invariant:
  assumes "invariant c" "beginLoop S c n = Inr (sc, c')"
  shows "invariant c'"
proof -
  from assms(2) obtain p l where
    p: "(if loopLevel c = 0 then intOfSize (length (code c)) else Inr (scopePtr c)) = Inr p"
    and l: "incrementInt (loopLevel c) = Inr l"
    and c': "loopLevel c' = l" "scopePtr c' = p" "prefix (code c) (code c')"
      "tempScope c' = tempScope c"
    by (auto simp: beginLoop_def addToCodeBody_def Let_def split: sum.splits)
  note sl = incrementInt_Inr [OF l]
  show ?thesis
  proof (cases "loopLevel c = 0")
    case True
    with p have "sint p = int (length (code c))" by (simp add: intOfSize_Inr)
    with True sl c' show ?thesis
      by (auto simp: invariant_def sless0 sle0 dest!: prefix_length_le)
  next
    case False
    then have "sint (loopLevel c) \<noteq> 0" by (simp add: sint_zero_iff)
    with False p sl c' assms(1) show ?thesis
      by (auto simp: invariant_def sless0 sle0 dest!: prefix_length_le split: if_splits)
  qed
qed

lemma endLoop_invariant:
  assumes "invariant c" "endLoop S c sc = Inr c'"
  shows "invariant c'"
proof -
  from assms(2) obtain l where l: "decrementInt (loopLevel c) = Inr l"
    by (auto simp: endLoop_def addToCodeBody_def Let_def split: sum.splits)
  note sl = decrementInt_Inr [OF l]
  show ?thesis
  proof (cases "l = 0")
    case True
    with assms(2) l show ?thesis
      by (auto simp: endLoop_def addToCodeBody_def Let_def invariant_def sless0
               split: if_splits)
  next
    case False
    then have nz: "sint l \<noteq> 0" by (simp add: sint_zero_iff)
    from False assms(2) l have c': "c' = (addToCodeBody c (loopClose S))\<lparr>loopLevel := l\<rparr>"
      by (auto simp: endLoop_def Let_def addToCodeBody_def)
    with assms(1) sl nz show ?thesis
      by (auto simp: invariant_def addToCodeBody_def sless0 sle0 split: if_splits)
  qed
qed


lemma step_invariant:
  "invariant (cstate st) \<Longrightarrow> step S c st = Inr (out, st') \<Longrightarrow> invariant (cstate st')"
proof (cases "managesLoop c")
  case False
  assume "invariant (cstate st)" "step S c st = Inr (out, st')"
  with False step_grows [of S c st out st'] show ?thesis
    by (blast intro: grows_invariant)
next
  case True
  assume i: "invariant (cstate st)" and s: "step S c st = Inr (out, st')"
  from True consider n where "c = BeginLoop n" | j where "c = ReleaseScope j"
    by (cases c) auto
  then show ?thesis
  proof cases
    case 1
    with s i show ?thesis
      by (auto split: sum.splits prod.splits dest: beginLoop_invariant)
  next
    case 2
    with s obtain sc where "endLoop S (cstate st) sc = Inr (cstate st')"
      by (auto simp: releaseScope_def split: sum.splits if_splits list.splits)
    with i show ?thesis by (rule endLoop_invariant)
  qed
qed

lemma run_invariant:
  "invariant (cstate st) \<Longrightarrow> run S cs st = Inr (outs, st') \<Longrightarrow> invariant (cstate st')"
proof (induction cs arbitrary: st outs)
  case Nil
  then show ?case by simp
next
  case (Cons c cs)
  from Cons.prems(2) obtain out st1 outs1 where
    s: "step S c st = Inr (out, st1)" and r: "run S cs st1 = Inr (outs1, st')"
    by (auto split: sum.splits prod.splits)
  from Cons.IH [OF step_invariant [OF Cons.prems(1) s] r] show ?case .
qed

lemma run_append:
  "run S (as @ bs) st =
     (case run S as st of
        Inl e \<Rightarrow> Inl e
      | Inr (o1, st1) \<Rightarrow>
          (case run S bs st1 of Inl e \<Rightarrow> Inl e | Inr (o2, st2) \<Rightarrow> Inr (o1 @ o2, st2)))"
  by (induction as arbitrary: st) (auto split: sum.splits prod.splits)


lemmas run_plain_simps =
  initial_def CodeSquashContext_def plain_def addToGlobalScope_def addToCodeBody_def
  addResultKey_def addResult_def addVecObs_def beginLoop_def endLoop_def saveAsTemp_def
  getTmpVarName_def getResult_def saveListAsArray_def buildCall_def outputSize_def
  incrementInt_def decrementInt_def intOfSize_def loopVarName_def activeVars_def
  releaseScope_def dependsOn_def to_string_small Let_def word_sless_alt word_sle_eq

text \<open>
  Claim C2.  In every state of the context with loop level 0, \<open>assembleCode\<close> returns
  exactly the global-scope buffer, then the code body, then the return statement built
  from the return expression.  In every state with loop level 0 that a run reaches from
  a new context, the temp-scope buffer is empty: everything that was hoisted has already
  been spliced into the code body.
\<close>

theorem assembleCode_concatenates:
  "(loopLevel c = 0 \<longrightarrow>
      assembleCode S c returnExpr = Inr (globalScope c @ code c @ returnStmt S returnExpr)) \<and>
   (run S cs (initial sizes) = Inr (outs, st) \<and> loopLevel (cstate st) = 0 \<longrightarrow>
      tempScope (cstate st) = [] \<and>
      assembleCode S (cstate st) returnExpr
        = Inr (globalScope (cstate st) @ code (cstate st) @ returnStmt S returnExpr))"
proof (intro conjI impI; (elim conjE)?)
  assume "loopLevel c = 0"
  then show "assembleCode S c returnExpr = Inr (globalScope c @ code c @ returnStmt S returnExpr)"
    by (simp add: assembleCode_def)
next
  assume r: "run S cs (initial sizes) = Inr (outs, st)" and l: "loopLevel (cstate st) = 0"
  from run_invariant [OF invariant_initial r] l show "tempScope (cstate st) = []"
    by (simp add: invariant_def)
next
  assume "loopLevel (cstate st) = 0"
  then show "assembleCode S (cstate st) returnExpr
        = Inr (globalScope (cstate st) @ code (cstate st) @ returnStmt S returnExpr)"
    by (simp add: assembleCode_def)
qed

theorem assembleCode_concatenates_witness:
  "loopLevel ((CodeSquashContext Map.empty)\<lparr>globalScope := ''g; '', code := ''b; ''\<rparr>) = 0 \<and>
   assembleCode plain ((CodeSquashContext Map.empty)\<lparr>globalScope := ''g; '', code := ''b; ''\<rparr>) ''r''
     = Inr ''g; b; return r;'' \<and>
   (case run plain
           [AddToGlobalScope ''g; '', BeginLoop \<lparr>namePtr = 2, deps = []\<rparr>,
            SaveAsTemp \<lparr>namePtr = 1, deps = []\<rparr> ''1+1'' ''a'', ReleaseScope 0]
           (initial Map.empty) of
      Inl e \<Rightarrow> None
    | Inr (outs, st) \<Rightarrow>
        Some (outs, loopLevel (cstate st), tempScope (cstate st),
              assembleCode plain (cstate st) ''r''))
     = Some ([Done, Opened 0, Text ''a'', Released 0], 0, [],
             Inr ''g; double a = 1+1; for(loopIdx0 < 1) { } return r;'')"
proof -
  let ?c = "(CodeSquashContext Map.empty)\<lparr>globalScope := ''g; '', code := ''b; ''\<rparr>"
  let ?cs = "[AddToGlobalScope ''g; '', BeginLoop \<lparr>namePtr = 2, deps = []\<rparr>,
            SaveAsTemp \<lparr>namePtr = 1, deps = []\<rparr> ''1+1'' ''a'', ReleaseScope 0]"
  let ?outs = "[Done, Opened 0, Text ''a'', Released 0]"
  have l: "loopLevel ?c = 0" by (simp add: CodeSquashContext_def)
  from assembleCode_concatenates [where c = ?c and S = plain and returnExpr = "''r''"] l
  have a: "assembleCode plain ?c ''r'' = Inr (globalScope ?c @ code ?c @ returnStmt plain ''r'')"
    by blast
  have a': "assembleCode plain ?c ''r'' = Inr ''g; b; return r;''"
    unfolding a by (simp add: plain_def)
  obtain st where r: "run plain ?cs (initial Map.empty) = Inr (?outs, st)"
    and l': "loopLevel (cstate st) = 0"
    and g: "globalScope (cstate st) = ''g; ''"
    and k: "code (cstate st) = ''double a = 1+1; for(loopIdx0 < 1) { } ''"
    by (simp add: run_plain_simps)
  from assembleCode_concatenates [where S = plain and cs = ?cs and sizes = Map.empty
      and outs = ?outs and st = st and returnExpr = "''r''"] r l'
  have t: "tempScope (cstate st) = []"
    and b: "assembleCode plain (cstate st) ''r''
        = Inr (globalScope (cstate st) @ code (cstate st) @ returnStmt plain ''r'')"
    by blast+
  from b g k have b': "assembleCode plain (cstate st) ''r''
        = Inr ''g; double a = 1+1; for(loopIdx0 < 1) { } return r;''"
    by (simp add: plain_def)
  from l a' r l' t b' show ?thesis by simp
qed

section \<open>Call-argument serialisation\<close>

lemma onlyArrays_refl: "onlyArrays c c"
  by (simp add: onlyArrays_def)

lemma onlyArrays_trans: "onlyArrays a b \<Longrightarrow> onlyArrays b c \<Longrightarrow> onlyArrays a c"
  unfolding onlyArrays_def
  by (auto elim: prefix_order.trans map_le_trans)

lemma getResult_onlyArrays: "onlyArrays c c' \<Longrightarrow> getResult S c' n = getResult S c n"
  by (auto simp: onlyArrays_def getResult_def split: option.splits)

lemma getResults_onlyArrays: "onlyArrays c c' \<Longrightarrow> getResults S c' ns = getResults S c ns"
  by (induction ns) (auto simp: getResult_onlyArrays split: sum.splits)

lemma saveListAsArray_onlyArrays:
  "saveListAsArray S c k name = Inr (t, c') \<Longrightarrow>
     onlyArrays c c' \<and> map_of (listNames c') (uniqueId k) = Some t"
  by (auto simp: saveListAsArray_def getTmpVarName_def addToCodeBody_def onlyArrays_def
                 map_le_def
           split: option.splits if_splits prod.splits sum.splits)

lemma buildArg_converted:
  "buildArg S c a = Inr (t, c') \<Longrightarrow> onlyArrays c c' \<and> converted S c c' a t"
  by (cases a)
     (auto simp: onlyArrays_refl getResultProxy_def split: sum.splits
           dest: saveListAsArray_onlyArrays)

lemma converted_mono:
  assumes "converted S c1 c2 a t" "onlyArrays c0 c1" "onlyArrays c2 c3"
  shows "converted S c0 c3 a t"
proof (cases a)
  case (ArgCollection k)
  with assms(1) have "map_of (listNames c2) (uniqueId k) = Some t" by simp
  moreover from assms(3) have "map_of (listNames c2) \<subseteq>\<^sub>m map_of (listNames c3)"
    by (simp add: onlyArrays_def)
  ultimately have "map_of (listNames c3) (uniqueId k) = Some t"
    by (auto simp: map_le_def dom_def)
  with ArgCollection show ?thesis by simp
next
  case (ArgNode n)
  with assms(1, 2) show ?thesis by (simp add: getResult_onlyArrays)
next
  case (ArgProxy p)
  with assms(1, 2) show ?thesis by (simp add: getResult_onlyArrays)
qed (use assms(1) in auto)


lemma buildArgs_converted:
  "buildArgs S c args = Inr (s, c') \<Longrightarrow>
     onlyArrays c c' \<and>
     (\<exists>ts. list_all2 (converted S c c') args ts \<and> s = joinWith '', '' ts)"
proof (induction S c args arbitrary: s c' rule: buildArgs.induct)
  case (1 S ctx)
  then show ?case by (auto simp: onlyArrays_refl)
next
  case (2 S ctx a)
  then have "onlyArrays ctx c' \<and> converted S ctx c' a s"
    by (simp add: buildArg_converted)
  then have "onlyArrays ctx c' \<and> list_all2 (converted S ctx c') [a] [s] \<and> s = joinWith '', '' [s]"
    by simp
  then show ?case by blast
next
  case (3 S ctx a b bs)
  show ?case
  proof (cases "leftFirst S (a # b # bs)")
    case True
    with "3.prems" obtain s1 c1 t where
      a: "buildArg S ctx a = Inr (s1, c1)" and r: "buildArgs S c1 (b # bs) = Inr (t, c')"
      and s: "s = s1 @ '', '' @ t"
      by (auto split: sum.splits prod.splits)
    from buildArg_converted [OF a] have a1: "onlyArrays ctx c1" and a2: "converted S ctx c1 a s1"
      by simp_all
    from "3.IH"(1) [OF True a refl r] obtain ts where
      r1: "onlyArrays c1 c'" and r2: "list_all2 (converted S c1 c') (b # bs) ts"
      and t: "t = joinWith '', '' ts"
      by blast
    from r2 have "list_all2 (converted S ctx c') (b # bs) ts"
      by (rule list_all2_mono) (rule converted_mono [OF _ a1 onlyArrays_refl])
    moreover from a2 have "converted S ctx c' a s1"
      by (rule converted_mono [OF _ onlyArrays_refl r1])
    ultimately have l: "list_all2 (converted S ctx c') (a # b # bs) (s1 # ts)" by simp
    from r2 obtain u us where "ts = u # us" by (cases ts) auto
    with s t have "s = joinWith '', '' (s1 # ts)" by simp
    with l onlyArrays_trans [OF a1 r1] show ?thesis by blast
  next
    case False
    with "3.prems" obtain s1 c1 t where
      r: "buildArgs S ctx (b # bs) = Inr (t, c1)" and a: "buildArg S c1 a = Inr (s1, c')"
      and s: "s = s1 @ '', '' @ t"
      by (auto split: sum.splits prod.splits)
    from buildArg_converted [OF a] have a1: "onlyArrays c1 c'" and a2: "converted S c1 c' a s1"
      by simp_all
    from "3.IH"(2) [OF False r] obtain ts where
      r1: "onlyArrays ctx c1" and r2: "list_all2 (converted S ctx c1) (b # bs) ts"
      and t: "t = joinWith '', '' ts"
      by blast
    from r2 have "list_all2 (converted S ctx c') (b # bs) ts"
      by (rule list_all2_mono) (rule converted_mono [OF _ onlyArrays_refl a1])
    moreover from a2 have "converted S ctx c' a s1"
      by (rule converted_mono [OF _ r1 onlyArrays_refl])
    ultimately have l: "list_all2 (converted S ctx c') (a # b # bs) (s1 # ts)" by simp
    from r2 obtain u us where "ts = u # us" by (cases ts) auto
    with s t have "s = joinWith '', '' (s1 # ts)" by simp
    with l onlyArrays_trans [OF r1 a1] show ?thesis by blast
  qed
qed

text \<open>Without collections the conversion changes nothing, whichever argument is
  converted first, and fails only with \<open>NotFound\<close>.\<close>

lemma buildArg_plain:
  "\<not> isCollection a \<Longrightarrow>
     (\<exists>t. buildArg S c a = Inr (t, c) \<and> converted S c c a t) \<or>
     (buildArg S c a = Inl NotFound \<and> (\<forall>t. \<not> converted S c c a t))"
  by (cases a) (auto simp: getResultProxy_def getResult_def split: sum.splits option.splits)

lemma buildArgs_plain:
  "list_all (\<lambda>a. \<not> isCollection a) args \<Longrightarrow>
     (\<exists>ts. buildArgs S c args = Inr (joinWith '', '' ts, c) \<and> list_all2 (converted S c c) args ts) \<or>
     (buildArgs S c args = Inl NotFound \<and> (\<forall>ts. \<not> list_all2 (converted S c c) args ts))"
proof (induction S c args rule: buildArgs.induct)
  case (1 S ctx)
  then show ?case by simp
next
  case (2 S ctx a)
  then have "\<not> isCollection a" by simp
  from buildArg_plain [OF this, of S ctx] show ?case
  proof (elim disjE exE conjE)
    fix t assume "buildArg S ctx a = Inr (t, ctx)" and "converted S ctx ctx a t"
    then have "buildArgs S ctx [a] = Inr (joinWith '', '' [t], ctx) \<and>
               list_all2 (converted S ctx ctx) [a] [t]"
      by simp
    then show ?thesis by blast
  next
    assume "buildArg S ctx a = Inl NotFound" and "\<forall>t. \<not> converted S ctx ctx a t"
    then show ?thesis by (auto simp: list_all2_Cons1)
  qed
next
  case (3 S ctx a b bs)
  from "3.prems" have na: "\<not> isCollection a" and nr: "list_all (\<lambda>a. \<not> isCollection a) (b # bs)"
    by simp_all
  note A = buildArg_plain [OF na, of S ctx]
  show ?case
  proof (cases "leftFirst S (a # b # bs)")
    case True
    from A show ?thesis
    proof (elim disjE exE conjE)
      fix t assume a: "buildArg S ctx a = Inr (t, ctx)" and ca: "converted S ctx ctx a t"
      from "3.IH"(1) [OF True a refl nr] show ?thesis
      proof (elim disjE exE conjE)
        fix ts assume r: "buildArgs S ctx (b # bs) = Inr (joinWith '', '' ts, ctx)"
          and cr: "list_all2 (converted S ctx ctx) (b # bs) ts"
        from cr obtain u us where "ts = u # us" by (cases ts) auto
        with True a r have "buildArgs S ctx (a # b # bs) = Inr (joinWith '', '' (t # ts), ctx)"
          by simp
        moreover from ca cr have "list_all2 (converted S ctx ctx) (a # b # bs) (t # ts)" by simp
        ultimately show ?thesis by blast
      next
        assume "buildArgs S ctx (b # bs) = Inl NotFound"
          and "\<forall>ts. \<not> list_all2 (converted S ctx ctx) (b # bs) ts"
        with True a show ?thesis by (auto simp: list_all2_Cons1)
      qed
    next
      assume "buildArg S ctx a = Inl NotFound" and "\<forall>t. \<not> converted S ctx ctx a t"
      with True show ?thesis by (auto simp: list_all2_Cons1)
    qed
  next
    case False
    from "3.IH"(2) [OF False nr] show ?thesis
    proof (elim disjE exE conjE)
      fix ts assume r: "buildArgs S ctx (b # bs) = Inr (joinWith '', '' ts, ctx)"
        and cr: "list_all2 (converted S ctx ctx) (b # bs) ts"
      from cr obtain u us where ts: "ts = u # us" by (cases ts) auto
      from A show ?thesis
      proof (elim disjE exE conjE)
        fix t assume a: "buildArg S ctx a = Inr (t, ctx)" and ca: "converted S ctx ctx a t"
        with False r ts have "buildArgs S ctx (a # b # bs) = Inr (joinWith '', '' (t # ts), ctx)"
          by simp
        moreover from ca cr have "list_all2 (converted S ctx ctx) (a # b # bs) (t # ts)" by simp
        ultimately show ?thesis by blast
      next
        assume "buildArg S ctx a = Inl NotFound" and "\<forall>t. \<not> converted S ctx ctx a t"
        with False r show ?thesis by (auto simp: list_all2_Cons1)
      qed
    next
      assume "buildArgs S ctx (b # bs) = Inl NotFound"
        and "\<forall>ts. \<not> list_all2 (converted S ctx ctx) (b # bs) ts"
      with False show ?thesis by (auto simp: list_all2_Cons1)
    qed
  qed
qed




section \<open>The result registry\<close>

lemma saveAsTemp_registry:
  "saveAsTemp S act c n v name = Inr (s, c') \<Longrightarrow>
     nodeNames c' = nodeNames c \<and> vecObsIndices c' = vecObsIndices c"
  by (auto simp: saveAsTemp_def getTmpVarName_def addToCodeBody_def
           split: if_splits prod.splits sum.splits)

lemma saveListAsArray_registry:
  "saveListAsArray S c coll name = Inr (s, c') \<Longrightarrow>
     nodeNames c' = nodeNames c \<and> vecObsIndices c' = vecObsIndices c"
  by (drule saveListAsArray_onlyArrays) (simp add: onlyArrays_def)

lemma buildCall_onlyArrays: "buildCall S c f args = Inr (s, c') \<Longrightarrow> onlyArrays c c'"
  by (auto simp: buildCall_def split: sum.splits prod.splits dest: buildArgs_converted)

lemma buildCall_registry:
  "buildCall S c f args = Inr (s, c') \<Longrightarrow>
     nodeNames c' = nodeNames c \<and> vecObsIndices c' = vecObsIndices c"
  by (drule buildCall_onlyArrays) (simp add: onlyArrays_def)

lemma beginLoop_registry:
  "beginLoop S c n = Inr (sc, c') \<Longrightarrow>
     nodeNames c' = nodeNames c \<and> vecObsIndices c' = vecObsIndices c"
  by (auto simp: beginLoop_def addToCodeBody_def Let_def split: if_splits sum.splits)

lemma endLoop_registry:
  "endLoop S c sc = Inr c' \<Longrightarrow>
     nodeNames c' = nodeNames c \<and> vecObsIndices c' = vecObsIndices c"
  by (auto simp: endLoop_def addToCodeBody_def Let_def split: if_splits sum.splits)

lemma releaseScope_registry:
  "releaseScope S st i = Inr st' \<Longrightarrow>
     nodeNames (cstate st') = nodeNames (cstate st) \<and>
     vecObsIndices (cstate st') = vecObsIndices (cstate st)"
  by (auto simp: releaseScope_def split: list.splits if_splits sum.splits
           dest!: endLoop_registry)

lemma step_nodeNames:
  "step S c st = Inr (out, st') \<Longrightarrow> \<not> records k c \<Longrightarrow>
     nodeNames (cstate st') k = nodeNames (cstate st) k"
proof (cases c)
  case (AddResult n v)
  assume "step S c st = Inr (out, st')" "\<not> records k c"
  with AddResult show ?thesis
    by (auto simp: addResult_def addResultKey_def split: prod.splits sum.splits
             dest: saveAsTemp_registry)
qed (auto simp: addResultKey_def addToGlobalScope_def addVecObs_def addToCodeBody_def
           getTmpVarName_def
         split: sum.splits prod.splits
         dest: buildCall_registry beginLoop_registry releaseScope_registry saveAsTemp_registry
               saveListAsArray_registry)

lemma run_nodeNames:
  "run S cs st = Inr (outs, st') \<Longrightarrow> list_all (\<lambda>c. \<not> records k c) cs \<Longrightarrow>
     nodeNames (cstate st') k = nodeNames (cstate st) k"
proof (induction cs arbitrary: st outs)
  case Nil
  then show ?case by simp
next
  case (Cons c cs)
  from Cons.prems(1) obtain out st1 outs1 where
    s: "step S c st = Inr (out, st1)" and r: "run S cs st1 = Inr (outs1, st')"
    by (auto split: sum.splits prod.splits)
  from Cons.prems(2) have nc: "\<not> records k c" and ncs: "list_all (\<lambda>c. \<not> records k c) cs"
    by simp_all
  from Cons.IH [OF r ncs] step_nodeNames [OF s nc] show ?case by simp
qed




lemma buildArgs_unvisited:
  assumes "ArgNode n \<in> set args \<or> ArgProxy (Proxy n) \<in> set args"
    and "getResult S c n = Inl NotFound"
  shows "\<exists>e. buildArgs S c args = Inl e"
proof (cases "buildArgs S c args")
  case (Inl e)
  then show ?thesis by blast
next
  case (Inr p)
  obtain s c' where "p = (s, c')" by (cases p)
  with Inr buildArgs_converted [of S c args s c'] obtain ts where
    l: "list_all2 (converted S c c') args ts"
    by blast
  from assms(1) obtain a where a: "a \<in> set args" "a = ArgNode n \<or> a = ArgProxy (Proxy n)"
    by blast
  from l a(1) obtain t where "converted S c c' a t"
    by (auto simp: list_all2_conv_all_nth in_set_conv_nth)
  with a(2) assms(2) show ?thesis by auto
qed

lemma buildArgs_unvisited_plain:
  assumes "ArgNode n \<in> set args \<or> ArgProxy (Proxy n) \<in> set args"
    and "getResult S c n = Inl NotFound"
    and "list_all (\<lambda>a. \<not> isCollection a) args"
  shows "buildArgs S c args = Inl NotFound"
proof -
  from buildArgs_unvisited [OF assms(1, 2)] obtain e where "buildArgs S c args = Inl e" by blast
  with buildArgs_plain [OF assms(3), of S c] show ?thesis by auto
qed

text \<open>
  Claim C4.  Looking up a node handle for which no result is recorded fails with
  \<open>NotFound\<close>, through the node and the proxy overload alike, unless the handle is a
  vector observable and a loop is open.  The failure is fatal: a \<open>buildCall\<close> with such a
  node among its arguments fails (with \<open>NotFound\<close> when no argument is a collection), and
  a run from a new context that looks up a handle that no earlier call recorded ends in
  \<open>NotFound\<close> whatever calls would follow.
\<close>

theorem getResult_unvisited:
  "(nodeNames c (namePtr n) = None \<and>
    (vecObsIndices c (namePtr n) = None \<or> \<not> 0 <s loopLevel c) \<longrightarrow>
      getResult S c n = Inl NotFound \<and> getResultProxy S c (Proxy n) = Inl NotFound \<and>
      (ArgNode n \<in> set args \<or> ArgProxy (Proxy n) \<in> set args \<longrightarrow>
         (\<exists>e. buildCall S c funcname args = Inl e) \<and>
         (list_all (\<lambda>a. \<not> isCollection a) args \<longrightarrow>
            buildCall S c funcname args = Inl NotFound))) \<and>
   (run S cs (initial sizes) = Inr (outs, st) \<and>
    list_all (\<lambda>c. \<not> records (namePtr n) c) cs \<and>
    (vecObsIndices (cstate st) (namePtr n) = None \<or> \<not> 0 <s loopLevel (cstate st)) \<longrightarrow>
      run S (cs @ GetResult n # rest) (initial sizes) = Inl NotFound)"
proof (rule conjI; rule impI; elim conjE)
  assume nn: "nodeNames c (namePtr n) = None"
    and nv: "vecObsIndices c (namePtr n) = None \<or> \<not> 0 <s loopLevel c"
  then have g: "getResult S c n = Inl NotFound"
    by (auto simp: getResult_def split: option.splits)
  then have p: "getResultProxy S c (Proxy n) = Inl NotFound"
    by (simp add: getResultProxy_def)
  have "ArgNode n \<in> set args \<or> ArgProxy (Proxy n) \<in> set args \<longrightarrow>
         (\<exists>e. buildCall S c funcname args = Inl e) \<and>
         (list_all (\<lambda>a. \<not> isCollection a) args \<longrightarrow>
            buildCall S c funcname args = Inl NotFound)"
  proof (rule impI)
    assume m: "ArgNode n \<in> set args \<or> ArgProxy (Proxy n) \<in> set args"
    from buildArgs_unvisited [OF m g] buildArgs_unvisited_plain [OF m g]
    show "(\<exists>e. buildCall S c funcname args = Inl e) \<and>
         (list_all (\<lambda>a. \<not> isCollection a) args \<longrightarrow>
            buildCall S c funcname args = Inl NotFound)"
      by (auto simp: buildCall_def)
  qed
  with g p show "getResult S c n = Inl NotFound \<and> getResultProxy S c (Proxy n) = Inl NotFound \<and>
      (ArgNode n \<in> set args \<or> ArgProxy (Proxy n) \<in> set args \<longrightarrow>
         (\<exists>e. buildCall S c funcname args = Inl e) \<and>
         (list_all (\<lambda>a. \<not> isCollection a) args \<longrightarrow>
            buildCall S c funcname args = Inl NotFound))"
    by blast
next
  assume r: "run S cs (initial sizes) = Inr (outs, st)"
    and nr: "list_all (\<lambda>c. \<not> records (namePtr n) c) cs"
    and nv: "vecObsIndices (cstate st) (namePtr n) = None \<or> \<not> 0 <s loopLevel (cstate st)"
  from run_nodeNames [OF r nr] have "nodeNames (cstate st) (namePtr n) = None"
    by (simp add: initial_def CodeSquashContext_def)
  with nv have "getResult S (cstate st) n = Inl NotFound"
    by (auto simp: getResult_def split: option.splits)
  with r show "run S (cs @ GetResult n # rest) (initial sizes) = Inl NotFound"
    by (simp add: run_append)
qed

theorem getResult_unvisited_witness:
  "nodeNames (CodeSquashContext Map.empty) 1 = None \<and>
   vecObsIndices (CodeSquashContext Map.empty) 1 = None \<and>
   getResult plain (CodeSquashContext Map.empty) \<lparr>namePtr = 1, deps = []\<rparr> = Inl NotFound \<and>
   getResultProxy plain (CodeSquashContext Map.empty) (Proxy \<lparr>namePtr = 1, deps = []\<rparr>)
     = Inl NotFound \<and>
   ArgNode \<lparr>namePtr = 1, deps = []\<rparr> \<in> set [ArgInt 3, ArgNode \<lparr>namePtr = 1, deps = []\<rparr>] \<and>
   list_all (\<lambda>a. \<not> isCollection a) [ArgInt 3, ArgNode \<lparr>namePtr = 1, deps = []\<rparr>] \<and>
   buildCall plain (CodeSquashContext Map.empty) ''f'' [ArgInt 3, ArgNode \<lparr>namePtr = 1, deps = []\<rparr>]
     = Inl NotFound \<and>
   (\<exists>st. run plain [AddToCodeBody ''y; '', AddVecObs 1 0] (initial Map.empty) = Inr ([Done, Done], st) \<and>
         \<not> 0 <s loopLevel (cstate st)) \<and>
   list_all (\<lambda>c. \<not> records 1 c) [AddToCodeBody ''y; '', AddVecObs 1 0 :: int call] \<and>
   run plain ([AddToCodeBody ''y; '', AddVecObs 1 0] @ GetResult \<lparr>namePtr = 1, deps = []\<rparr>
                # [AddResultKey 1 ''z'', GetResult \<lparr>namePtr = 1, deps = []\<rparr>])
       (initial Map.empty) = Inl NotFound"
proof -
  let ?n = "\<lparr>namePtr = 1, deps = []\<rparr>"
  let ?c = "CodeSquashContext Map.empty"
  let ?cs = "[AddToCodeBody ''y; '', AddVecObs 1 0] :: int call list"
  have n: "nodeNames ?c (namePtr ?n) = None" "vecObsIndices ?c (namePtr ?n) = None"
    by (simp_all add: CodeSquashContext_def)
  have m: "ArgNode ?n \<in> set [ArgInt 3, ArgNode ?n] \<or> ArgProxy (Proxy ?n) \<in> set [ArgInt 3, ArgNode ?n]"
    by simp
  have p: "list_all (\<lambda>a. \<not> isCollection a) [ArgInt 3, ArgNode ?n]" by simp
  obtain st where r: "run plain ?cs (initial Map.empty) = Inr ([Done, Done], st)"
    and lv: "\<not> 0 <s loopLevel (cstate st)"
    by (simp add: run_plain_simps)
  have l: "list_all (\<lambda>c. \<not> records (namePtr ?n) c) ?cs" by simp
  note t = getResult_unvisited [where S = plain and n = ?n and c = ?c and funcname = "''f''"
      and args = "[ArgInt 3, ArgNode ?n]" and cs = ?cs
      and sizes = Map.empty and outs = "[Done, Done]" and st = st
      and rest = "[AddResultKey 1 ''z'', GetResult ?n]"]
  from t n m p have a: "getResult plain ?c ?n = Inl NotFound"
    "getResultProxy plain ?c (Proxy ?n) = Inl NotFound"
    "buildCall plain ?c ''f'' [ArgInt 3, ArgNode ?n] = Inl NotFound"
    by blast+
  from t r l lv have b: "run plain (?cs @ GetResult ?n
      # [AddResultKey 1 ''z'', GetResult ?n]) (initial Map.empty) = Inl NotFound"
    by blast
  from r lv have "\<exists>st. run plain ?cs (initial Map.empty) = Inr ([Done, Done], st) \<and>
         \<not> 0 <s loopLevel (cstate st)"
    by blast
  with n m p l a b show ?thesis by simp
qed

text \<open>A vector observable that was never recorded: inside a loop the lookup succeeds with
  the indexed access.\<close>

theorem getResult_unvisited_counterexample:
  "outcomes (run plain [AddVecObs 5 0, BeginLoop \<lparr>namePtr = 9, deps = [5]\<rparr>,
                        GetResult \<lparr>namePtr = 5, deps = []\<rparr>] (initial Map.empty))
     = Inr [Done, Opened 0, Text ''obs[0 + loopIdx0]'']"
  by (simp add: outcomes_def run_plain_simps)

section \<open>Temporary names\<close>













section \<open>List materialisation\<close>

















section \<open>Loop scopes\<close>





















section \<open>Output sizes\<close>

text \<open>
  Claim C9.  For a node identity handle that is absent from the output-size table given
  to the constructor, \<open>outputSize\<close> returns 1; for a handle that is present it returns
  the stored size.  The same holds in every later state of the context, whose table
  field is only ever read.
\<close>

theorem outputSize_table:
  "(sizes k = None \<longrightarrow> outputSize (CodeSquashContext sizes) k = 1) \<and>
   (\<forall>n. sizes k = Some n \<longrightarrow> outputSize (CodeSquashContext sizes) k = n) \<and>
   (nodeOutputSizes ctx k = None \<longrightarrow> outputSize ctx k = 1) \<and>
   (\<forall>n. nodeOutputSizes ctx k = Some n \<longrightarrow> outputSize ctx k = n)"
  by (simp add: outputSize_def CodeSquashContext_def)

theorem outputSize_table_witness:
  "(Map.empty(7 \<mapsto> 100)) (3::key) = None \<and>
   outputSize (CodeSquashContext (Map.empty(7 \<mapsto> 100))) 3 = 1 \<and>
   (Map.empty(7 \<mapsto> 100)) (7::key) = Some (100::nat) \<and>
   outputSize (CodeSquashContext (Map.empty(7 \<mapsto> 100))) 7 = 100"
  using outputSize_table [of "Map.empty(7 \<mapsto> 100)" 3]
        outputSize_table [of "Map.empty(7 \<mapsto> 100)" 7]
  by simp

section \<open>Calls without arguments\<close>

text \<open>
  Claim C10.  \<open>buildCall\<close> with no arguments returns the function name followed by an
  empty parenthesised parameter list, \<open>funcname()\<close>; no separator is emitted and the
  context is left as it was.
\<close>

theorem buildCall_no_args:
  "buildCall S ctx funcname [] = Inr (funcname @ ''()'', ctx)"
  by (simp add: buildCall_def)

end
